theory Spec2Isabelle
  imports Main "HOL-Library.Word" "HOL-Library.Multiset" "HOL-Library.Sublist"
begin

section \<open>delete-old-files: data model\<close>

text \<open>
  The program (\<^verbatim>\<open>src/main.go\<close>) lists the non-directory entries of one directory,
  oldest first, keeps those whose name matches a regular expression, cuts the list down
  by the \<^verbatim>\<open>--number\<close> policy, shows it, asks for confirmation and removes the files.

  An \<^verbatim>\<open>os.FileInfo\<close> is used through \<^verbatim>\<open>Name()\<close>, \<^verbatim>\<open>Size()\<close> (an int64) and
  \<^verbatim>\<open>ModTime()\<close> (an instant; \<^verbatim>\<open>Before\<close> is the strict order of instants).
\<close>

record fileInfo =
  Name :: string
  Size :: int
  ModTime :: int

text \<open>
  An \<^verbatim>\<open>fs.DirEntry\<close> as \<^verbatim>\<open>ReadDir\<close> yields it: its name, \<^verbatim>\<open>IsDir()\<close>, and \<^verbatim>\<open>Info()\<close>, which
  returns the file's info or an error (\<open>None\<close>), for instance when the file has gone
  since the directory was read.
\<close>

record dirEntry =
  de_Name :: string
  de_IsDir :: bool
  de_Info :: "fileInfo option"

text \<open>
  What the operating system answers for a path: \<^verbatim>\<open>os.Open\<close> fails, or it yields a handle
  with the result of \<^verbatim>\<open>Stat\<close> (\<open>None\<close>: an error, else whether the handle is a directory)
  and the result of \<^verbatim>\<open>ReadDir(-1)\<close> (\<open>None\<close>: an error, else the entries in the order
  of the directory read).
\<close>

datatype dirState = OpenErr | Handle "bool option" "dirEntry list option"

text \<open>
  The world the run acts on: the answers to the listing calls, the paths present on
  disk and the paths whose removal the system refuses.
\<close>

record world =
  w_open :: "string \<Rightarrow> dirState"
  w_disk :: "string list"
  w_protected :: "string list"

text \<open>The errors \<^verbatim>\<open>Action\<close> returns, and the three ways a run ends.\<close>

datatype error = CompileFailed | OpenFailed | NotADirectory | ReadFailed | DeleteFailed

datatype 'a res = Ok 'a | Err error | Panicked

datatype ret = RetNil | RetError error | Panic

text \<open>\<^verbatim>\<open>main\<close>: a nil error exits 0, \<^verbatim>\<open>log.Fatal\<close> exits 1, a runtime panic exits 2.\<close>

fun exitCode :: "ret \<Rightarrow> nat" where
  "exitCode RetNil = 0"
| "exitCode (RetError e) = 1"
| "exitCode Panic = 2"

section \<open>Directory Lister\<close>

text \<open>\<^verbatim>\<open>sortByModtime.Less\<close>: \<^verbatim>\<open>s[i].ModTime().Before(s[j].ModTime())\<close>.\<close>

definition Less :: "fileInfo \<Rightarrow> fileInfo \<Rightarrow> bool" where
  "Less a b \<longleftrightarrow> ModTime a < ModTime b"

text \<open>
  The loop of \<^verbatim>\<open>listByTime\<close> over the entries read: directories are skipped, and so is
  an entry whose \<^verbatim>\<open>Info()\<close> returns an error.
\<close>

fun collectInfo :: "dirEntry list \<Rightarrow> fileInfo list \<Rightarrow> fileInfo list" where
  "collectInfo [] arrFileInfo = arrFileInfo"
| "collectInfo (f # arrFiles) arrFileInfo =
     (if de_IsDir f then collectInfo arrFiles arrFileInfo
      else (case de_Info f of
              Some fi \<Rightarrow> collectInfo arrFiles (arrFileInfo @ [fi])
            | None \<Rightarrow> collectInfo arrFiles arrFileInfo))"

text \<open>
  \<^verbatim>\<open>listByTime\<close>. \<^verbatim>\<open>sort.Sort\<close> belongs to Go's standard library and is a parameter
  \<open>srt\<close>, applied to the \<^verbatim>\<open>Less\<close> of \<^verbatim>\<open>sortByModtime\<close>. The result of \<^verbatim>\<open>Stat\<close> is used
  without looking at its error, so a failed \<^verbatim>\<open>Stat\<close> is a nil dereference.
\<close>

definition listByTime ::
  "((fileInfo \<Rightarrow> fileInfo \<Rightarrow> bool) \<Rightarrow> fileInfo list \<Rightarrow> fileInfo list) \<Rightarrow> world \<Rightarrow> string
     \<Rightarrow> fileInfo list res" where
  "listByTime srt w dir =
     (case w_open w dir of
        OpenErr \<Rightarrow> Err OpenFailed
      | Handle st rd \<Rightarrow>
          (case st of
             None \<Rightarrow> Panicked
           | Some isDir \<Rightarrow>
               if \<not> isDir then Err NotADirectory
               else (case rd of
                       None \<Rightarrow> Err ReadFailed
                     | Some arrFiles \<Rightarrow> Ok (srt Less (collectInfo arrFiles [])))))"

section \<open>Pattern Filter\<close>

text \<open>
  \<^verbatim>\<open>path.Base\<close> of Go's standard library: the last element of a slash-separated path,
  trailing slashes removed first; \<^verbatim>\<open>"."\<close> for the empty path and \<^verbatim>\<open>"/"\<close> for a path of
  slashes only.
\<close>

definition path_Base :: "string \<Rightarrow> string" where
  "path_Base p =
     (if p = [] then ''.''
      else (let q = rev (dropWhile (\<lambda>c. c = CHR ''/'') (rev p));
                b = rev (takeWhile (\<lambda>c. c \<noteq> CHR ''/'') (rev q))
            in if b = [] then ''/'' else b))"

text \<open>
  Modelled from the spec: Go's \<^verbatim>\<open>regexp\<close> package is not among the sources. A compiled
  expression is represented by what it matches: \<open>re u v w\<close> holds when the expression
  matches the text \<open>v\<close> standing between \<open>u\<close> and \<open>w\<close> (the context serves anchors such as
  \<^verbatim>\<open>^\<close> and \<^verbatim>\<open>$\<close>). \<^verbatim>\<open>MatchString\<close> reports whether the string contains any match.
\<close>

type_synonym regexp = "string \<Rightarrow> string \<Rightarrow> string \<Rightarrow> bool"

fun splits2 :: "string \<Rightarrow> (string \<times> string) list" where
  "splits2 [] = [([], [])]"
| "splits2 (c # s) = ([], c # s) # map (\<lambda>(u, v). (c # u, v)) (splits2 s)"

definition splits3 :: "string \<Rightarrow> (string \<times> string \<times> string) list" where
  "splits3 s = concat (map (\<lambda>(u, r). map (\<lambda>(v, w). (u, v, w)) (splits2 r)) (splits2 s))"

definition MatchString :: "regexp \<Rightarrow> string \<Rightarrow> bool" where
  "MatchString re s = list_ex (\<lambda>(u, v, w). re u v w) (splits3 s)"

text \<open>The loop of \<^verbatim>\<open>Action\<close> that builds \<^verbatim>\<open>arrMatch\<close> (lines 69 to 77).\<close>

fun patternFilter :: "string \<Rightarrow> regexp \<Rightarrow> fileInfo list \<Rightarrow> fileInfo list \<Rightarrow> fileInfo list" where
  "patternFilter fileNameSelf re [] arrMatch = arrMatch"
| "patternFilter fileNameSelf re (fi # arrFileInfo) arrMatch =
     (if Name fi = fileNameSelf then patternFilter fileNameSelf re arrFileInfo arrMatch
      else if MatchString re (Name fi)
           then patternFilter fileNameSelf re arrFileInfo (arrMatch @ [fi])
           else patternFilter fileNameSelf re arrFileInfo arrMatch)"

section \<open>Count Selector\<close>

text \<open>
  Lines 84 to 96. \<^verbatim>\<open>number\<close> is a Go \<^verbatim>\<open>int\<close>, 64 bits wide here: \<open>sint\<close> reads it and
  \<open>- number\<close> wraps. A slice length is a non-negative \<^verbatim>\<open>int\<close>, so \<^verbatim>\<open>len(arrMatch)+number\<close>
  with a negative \<^verbatim>\<open>number\<close> does not overflow. The slice expression
  \<^verbatim>\<open>arrMatch[:k]\<close> panics when \<open>k\<close> is negative.
\<close>

datatype 'a selection = Selected "'a list" | AllKept | SlicePanic

definition countSelect :: "64 word \<Rightarrow> 'a list \<Rightarrow> 'a selection" where
  "countSelect number arrMatch =
     (if 0 < sint number then
        (if int (length arrMatch) > sint number
         then Selected (take (nat (sint number)) arrMatch)
         else Selected arrMatch)
      else if sint number < 0 then
        (if int (length arrMatch) > sint (- number) then
           (let k = int (length arrMatch) + sint number
            in if k < 0 then SlicePanic else Selected (take (nat k) arrMatch))
         else AllKept)
      else Selected arrMatch)"

section \<open>Presenter\<close>

text \<open>
  What the run does to the outside, in order: lines on standard output, lines of the
  logger, the rendered table (its rows), the two prompts, and each call of
  \<^verbatim>\<open>os.Remove\<close> with its path and whether it succeeded.
\<close>

datatype event =
    Println string
  | LogPrintln string
  | TableRender "string list list"
  | AskSelect
  | AskMultiSelect "string list"
  | OsRemove string bool

text \<open>
  The library functions \<^verbatim>\<open>Action\<close> calls and the sources do not contain:
  \<^verbatim>\<open>regexp.Compile\<close> (\<open>None\<close>: the pattern does not compile), \<^verbatim>\<open>sort.Sort\<close>,
  \<^verbatim>\<open>path.Join\<close> of two elements, \<^verbatim>\<open>humanize.IBytes\<close> and the \<^verbatim>\<open>Format\<close> of an instant.
\<close>

record env =
  regexp_Compile :: "string \<Rightarrow> regexp option"
  sort_Sort :: "(fileInfo \<Rightarrow> fileInfo \<Rightarrow> bool) \<Rightarrow> fileInfo list \<Rightarrow> fileInfo list"
  path_Join :: "string \<Rightarrow> string \<Rightarrow> string"
  humanize_IBytes :: "64 word \<Rightarrow> string"
  time_Format :: "int \<Rightarrow> string"

text \<open>The verb \<^verbatim>\<open>%d\<close> of \<^verbatim>\<open>fmt.Sprintf\<close> on a non-negative integer.\<close>

fun decimal :: "nat \<Rightarrow> string" where
  "decimal n =
     (if n < 10 then [''0123456789'' ! n]
      else decimal (n div 10) @ [''0123456789'' ! (n mod 10)])"

declare decimal.simps [simp del]

definition truncateLen :: nat where
  "truncateLen = 30"

text \<open>
  The loop of \<^verbatim>\<open>printResult\<close>: \<open>i\<close> is the index, \<open>totalSize\<close> a \<^verbatim>\<open>uint64\<close> (the
  conversion \<^verbatim>\<open>uint64(fi.Size())\<close> and the sum both wrap), \<open>rows\<close> the rows appended
  to the table so far.
\<close>

fun printLoop ::
  "env \<Rightarrow> fileInfo list \<Rightarrow> nat \<Rightarrow> 64 word \<Rightarrow> string list list \<Rightarrow> 64 word \<times> string list list" where
  "printLoop E [] i totalSize rows = (totalSize, rows)"
| "printLoop E (fi # r) i totalSize rows =
     (let size = (word_of_int (Size fi) :: 64 word);
          totalSize' = totalSize + size
      in if i \<ge> truncateLen then printLoop E r (i + 1) totalSize' rows
         else printLoop E r (i + 1) totalSize'
                (rows @ [[Name fi, humanize_IBytes E size, time_Format E (ModTime fi)]]))"

definition printResult :: "env \<Rightarrow> fileInfo list \<Rightarrow> event list" where
  "printResult E r =
     (case printLoop E r 0 0 [] of
        (totalSize, rows) \<Rightarrow>
          (let hint = ''Total: '' @ decimal (length r) @ '' file(s), ''
                        @ humanize_IBytes E totalSize;
               hint' = (if length r > truncateLen
                        then ''Showing first '' @ decimal truncateLen @ '' files only, '' @ hint
                        else hint)
           in [TableRender rows, Println hint']))"

section \<open>Confirmation Flow\<close>

text \<open>
  The user at the terminal: the outcome of the \<^verbatim>\<open>Select\<close> prompt and, given the
  options shown, of the \<^verbatim>\<open>MultiSelect\<close> prompt. \<open>None\<close> is a prompt that returns an
  error instead of an answer.
\<close>

record user =
  u_select :: "string option"
  u_multi :: "string list \<Rightarrow> string list option"

text \<open>
  Modelled from the spec: the \<^verbatim>\<open>survey\<close> library is not among the sources.
  \<^verbatim>\<open>survey.AskOne(prompt, &v)\<close> with its error dropped, as \<^verbatim>\<open>Action\<close> calls it: an
  answer is stored in the variable, and a prompt that fails to obtain an answer leaves
  the variable as it was.
\<close>

definition survey_AskOne :: "'a option \<Rightarrow> 'a \<Rightarrow> 'a" where
  "survey_AskOne response v = (case response of None \<Rightarrow> v | Some a \<Rightarrow> a)"

text \<open>Lines 119 to 124: the map from names to files and the list of options.\<close>

fun pickOptions ::
  "fileInfo list \<Rightarrow> (string \<rightharpoonup> fileInfo) \<Rightarrow> string list
     \<Rightarrow> (string \<rightharpoonup> fileInfo) \<times> string list" where
  "pickOptions [] mapSel arrSel = (mapSel, arrSel)"
| "pickOptions (fi # arrMatch) mapSel arrSel =
     pickOptions arrMatch (mapSel(Name fi \<mapsto> fi)) (arrSel @ [Name fi])"

text \<open>
  Lines 131 to 134: the files of the names checked. A name that is not a key of the
  map yields the nil \<^verbatim>\<open>FileInfo\<close>, here \<open>None\<close>.
\<close>

fun pickMatch ::
  "(string \<rightharpoonup> fileInfo) \<Rightarrow> string list \<Rightarrow> fileInfo option list \<Rightarrow> fileInfo option list" where
  "pickMatch mapSel [] arrMatch = arrMatch"
| "pickMatch mapSel (ans # arrAns) arrMatch = pickMatch mapSel arrAns (arrMatch @ [mapSel ans])"

text \<open>
  Lines 104 to 141: whether the deletion is confirmed, the files to delete and the
  prompts shown.
\<close>

definition confirmation ::
  "bool \<Rightarrow> user \<Rightarrow> fileInfo list \<Rightarrow> bool \<times> fileInfo option list \<times> event list" where
  "confirmation yes U arrMatch =
     (if \<not> yes then
        (let ans = survey_AskOne (u_select U) ''No''
         in if ans = ''Yes'' then (True, map Some arrMatch, [AskSelect])
            else if ans = ''No'' then (False, map Some arrMatch, [AskSelect])
            else if ans = ''Pick'' then
              (case pickOptions arrMatch Map.empty [] of
                 (mapSel, arrSel) \<Rightarrow>
                   (let arrAns = survey_AskOne (u_multi U arrSel) [];
                        arrMatch' = pickMatch mapSel arrAns []
                    in (length arrMatch' > 0, arrMatch', [AskSelect, AskMultiSelect arrSel])))
            else (False, map Some arrMatch, [AskSelect]))
      else (True, map Some arrMatch, []))"

section \<open>Deleter\<close>

text \<open>
  \<^verbatim>\<open>os.Remove\<close>: a path that is on disk and not protected is removed; any other call
  fails and changes nothing.
\<close>

definition os_Remove :: "world \<Rightarrow> string \<Rightarrow> bool \<times> world" where
  "os_Remove w p =
     (if p \<in> set (w_disk w) \<and> p \<notin> set (w_protected w)
      then (True, w\<lparr>w_disk := removeAll p (w_disk w)\<rparr>)
      else (False, w))"

text \<open>
  Lines 148 to 155. The result is \<open>hasErr\<close>, or \<open>None\<close> when \<^verbatim>\<open>fi.Name()\<close> is called on
  a nil \<^verbatim>\<open>FileInfo\<close> and the run panics; the events and the world are those reached.
\<close>

fun deleteLoop ::
  "(string \<Rightarrow> string \<Rightarrow> string) \<Rightarrow> string \<Rightarrow> fileInfo option list \<Rightarrow> bool \<Rightarrow> event list \<Rightarrow> world
     \<Rightarrow> bool option \<times> event list \<times> world" where
  "deleteLoop join prefix' [] hasErr evs w = (Some hasErr, evs, w)"
| "deleteLoop join prefix' (None # arrMatch) hasErr evs w = (None, evs, w)"
| "deleteLoop join prefix' (Some fi # arrMatch) hasErr evs w =
     (case os_Remove w (join prefix' (Name fi)) of
        (ok, w') \<Rightarrow>
          if ok
          then deleteLoop join prefix' arrMatch hasErr
                 (evs @ [OsRemove (join prefix' (Name fi)) True]) w'
          else deleteLoop join prefix' arrMatch True
                 (evs @ [OsRemove (join prefix' (Name fi)) False,
                         LogPrintln (join prefix' (Name fi))]) w')"

text \<open>Lines 148 to 161: the loop and the return value.\<close>

definition deleter ::
  "env \<Rightarrow> string \<Rightarrow> fileInfo option list \<Rightarrow> world \<Rightarrow> ret \<times> event list \<times> world" where
  "deleter E prefix' arrMatch w =
     (case deleteLoop (path_Join E) prefix' arrMatch False [] w of
        (None, evs, w') \<Rightarrow> (Panic, evs, w')
      | (Some hasErr, evs, w') \<Rightarrow>
          if hasErr then (RetError DeleteFailed, evs, w')
          else (RetNil, evs @ [Println ''Finished deleting above files''], w'))"

section \<open>The action\<close>

text \<open>The flags of the command line, as \<^verbatim>\<open>ctx\<close> gives them.\<close>

record flags =
  f_pattern :: string
  f_number :: "64 word"
  f_path :: string
  f_dry_run :: bool
  f_yes :: bool

text \<open>
  \<^verbatim>\<open>app.Action\<close>, lines 56 to 96: the pattern is compiled, the directory listed, the
  matches collected and cut down by \<^verbatim>\<open>number\<close>. The result is the selection, or the
  value returned and the events of a run that ends here. \<open>args0\<close> is \<^verbatim>\<open>os.Args[0]\<close>.
\<close>

definition selectMatches ::
  "env \<Rightarrow> string \<Rightarrow> flags \<Rightarrow> world \<Rightarrow> (ret \<times> event list) + fileInfo list" where
  "selectMatches E args0 ctx w =
     (case regexp_Compile E (f_pattern ctx) of
        None \<Rightarrow> Inl (RetError CompileFailed, [])
      | Some re \<Rightarrow>
          (let fileNameSelf = path_Base args0;
               prefix' = f_path ctx
           in case listByTime (sort_Sort E) w prefix' of
                Err e \<Rightarrow> Inl (RetError e, [])
              | Panicked \<Rightarrow> Inl (Panic, [])
              | Ok arrFileInfo \<Rightarrow>
                  (let arrMatch = patternFilter fileNameSelf re arrFileInfo []
                   in if length arrMatch = 0
                      then Inl (RetNil, [Println ''No matching files found''])
                      else
                        (case countSelect (f_number ctx) arrMatch of
                           AllKept \<Rightarrow>
                             Inl (RetNil,
                               [Println ''All matching files will be kept due to given number flag''])
                         | SlicePanic \<Rightarrow> Inl (Panic, [])
                         | Selected arrMatch \<Rightarrow> Inr arrMatch))))"

text \<open>
  \<^verbatim>\<open>app.Action\<close>, the whole of it (lines 55 to 162): the value returned, the events
  in order and the world left behind.
\<close>

definition Action :: "env \<Rightarrow> string \<Rightarrow> flags \<Rightarrow> user \<Rightarrow> world \<Rightarrow> ret \<times> event list \<times> world" where
  "Action E args0 ctx U w =
     (case selectMatches E args0 ctx w of
        Inl (r, evs) \<Rightarrow> (r, evs, w)
      | Inr arrMatch \<Rightarrow>
          (let shown = printResult E arrMatch
           in if f_dry_run ctx then (RetNil, shown, w)
              else
                (case confirmation (f_yes ctx) U arrMatch of
                   (confirm, arrMatch, asked) \<Rightarrow>
                     if \<not> confirm
                     then (RetNil, shown @ asked @ [Println ''Aborted''], w)
                     else
                       (case deleter E (f_path ctx) arrMatch w of
                          (r, evs, w') \<Rightarrow> (r, shown @ asked @ evs, w')))))"

text \<open>The paths \<^verbatim>\<open>os.Remove\<close> was called on, and the prompts shown.\<close>

definition removals :: "event list \<Rightarrow> string list" where
  "removals evs = concat (map (\<lambda>e. case e of OsRemove p ok \<Rightarrow> [p] | _ \<Rightarrow> []) evs)"

definition isPrompt :: "event \<Rightarrow> bool" where
  "isPrompt e = (case e of AskSelect \<Rightarrow> True | AskMultiSelect opts \<Rightarrow> True | _ \<Rightarrow> False)"

section \<open>A sample environment\<close>

text \<open>
  To run the model on concrete inputs, the library functions need values. The sorter
  is an insertion sort. The other stand-ins agree with the library on the inputs the
  examples use: a pattern without metacharacters matches exactly its own text, a clean
  directory path and a file name are joined by a slash, a size under 1024 bytes is
  shown as a number of bytes.
\<close>

fun insertLess :: "('a \<Rightarrow> 'a \<Rightarrow> bool) \<Rightarrow> 'a \<Rightarrow> 'a list \<Rightarrow> 'a list" where
  "insertLess lt x [] = [x]"
| "insertLess lt x (y # ys) =
     (if lt x y then x # y # ys else y # insertLess lt x ys)"

definition insertionSort :: "('a \<Rightarrow> 'a \<Rightarrow> bool) \<Rightarrow> 'a list \<Rightarrow> 'a list" where
  "insertionSort lt xs = foldl (\<lambda>sorted x. insertLess lt x sorted) [] xs"

definition sampleEnv :: env where
  "sampleEnv =
     \<lparr>regexp_Compile = (\<lambda>p. Some (\<lambda>u v w. v = p)),
      sort_Sort = insertionSort,
      path_Join = (\<lambda>dir name. dir @ ''/'' @ name),
      humanize_IBytes = (\<lambda>n. decimal (unat n) @ '' B''),
      time_Format = (\<lambda>t. decimal (nat t))\<rparr>"

text \<open>Sample files, and a directory \<^verbatim>\<open>d\<close> that holds them and a subdirectory.\<close>

definition fileA :: fileInfo where
  "fileA = \<lparr>Name = ''a.log'', Size = 5, ModTime = 1\<rparr>"

definition fileB :: fileInfo where
  "fileB = \<lparr>Name = ''b.log'', Size = 7, ModTime = 2\<rparr>"

definition fileC :: fileInfo where
  "fileC = \<lparr>Name = ''catalog.txt'', Size = 9, ModTime = 3\<rparr>"

definition sampleEntries :: "dirEntry list" where
  "sampleEntries =
     [\<lparr>de_Name = ''catalog.txt'', de_IsDir = False, de_Info = Some fileC\<rparr>,
      \<lparr>de_Name = ''sub'', de_IsDir = True, de_Info = None\<rparr>,
      \<lparr>de_Name = ''b.log'', de_IsDir = False, de_Info = Some fileB\<rparr>,
      \<lparr>de_Name = ''a.log'', de_IsDir = False, de_Info = Some fileA\<rparr>]"

definition sampleWorld :: world where
  "sampleWorld =
     \<lparr>w_open = (\<lambda>p. if p = ''d'' then Handle (Some True) (Some sampleEntries) else OpenErr),
      w_disk = [''d/a.log'', ''d/b.log'', ''d/catalog.txt''],
      w_protected = [''d/b.log'']\<rparr>"

definition sampleUser :: user where
  "sampleUser = \<lparr>u_select = Some ''Yes'', u_multi = (\<lambda>arrSel. Some arrSel)\<rparr>"

definition sampleFlags :: flags where
  "sampleFlags =
     \<lparr>f_pattern = ''log'', f_number = 0, f_path = ''d'', f_dry_run = False, f_yes = False\<rparr>"

text \<open>
  A second sorter, which also puts a list in ascending order by \<open>lt\<close> but emits equal
  elements in the reverse of their input order.
\<close>

definition tieReversingSort :: "('a \<Rightarrow> 'a \<Rightarrow> bool) \<Rightarrow> 'a list \<Rightarrow> 'a list" where
  "tieReversingSort lt xs = rev (insertionSort (\<lambda>a b. lt b a) xs)"

text \<open>A file as old as \<open>fileA\<close>, and a directory with an entry whose \<^verbatim>\<open>Info()\<close> fails.\<close>

definition fileA2 :: fileInfo where
  "fileA2 = \<lparr>Name = ''a2.log'', Size = 6, ModTime = 1\<rparr>"

definition goneEntries :: "dirEntry list" where
  "goneEntries =
     [\<lparr>de_Name = ''gone.log'', de_IsDir = False, de_Info = None\<rparr>,
      \<lparr>de_Name = ''a.log'', de_IsDir = False, de_Info = Some fileA\<rparr>]"

definition goneWorld :: world where
  "goneWorld =
     \<lparr>w_open = (\<lambda>p. if p = ''d'' then Handle (Some True) (Some goneEntries) else OpenErr),
      w_disk = [''d/a.log''],
      w_protected = []\<rparr>"

section \<open>Paths as the Deleter builds them\<close>

text \<open>
  \<^verbatim>\<open>path.Clean\<close> and \<^verbatim>\<open>path.Join\<close> of Go's standard library. \<^verbatim>\<open>Clean\<close> works on the text of
  the path alone: empty elements and \<^verbatim>\<open>.\<close> are dropped, an inner \<^verbatim>\<open>..\<close> is dropped together
  with the element before it, a \<^verbatim>\<open>..\<close> at the start of a rooted path is dropped and one at
  the start of any other path is kept; the empty result is \<^verbatim>\<open>.\<close>. \<^verbatim>\<open>Join\<close> puts a slash
  between its non-empty elements and cleans the result; with no non-empty element
  it returns the empty string.
\<close>

fun splitSlash :: "string \<Rightarrow> string list" where
  "splitSlash [] = [[]]"
| "splitSlash (c # s) =
     (if c = CHR ''/'' then [] # splitSlash s
      else (case splitSlash s of
              e # es \<Rightarrow> (c # e) # es
            | [] \<Rightarrow> [[c]]))"

fun joinSlash :: "string list \<Rightarrow> string" where
  "joinSlash [] = []"
| "joinSlash [e] = e"
| "joinSlash (e # es) = e @ ''/'' @ joinSlash es"

fun cleanElems :: "bool \<Rightarrow> string list \<Rightarrow> string list \<Rightarrow> string list" where
  "cleanElems rooted [] out = out"
| "cleanElems rooted (e # es) out =
     (if e = [] \<or> e = ''.'' then cleanElems rooted es out
      else if e = ''..'' then
        (if out \<noteq> [] \<and> last out \<noteq> ''..'' then cleanElems rooted es (butlast out)
         else if \<not> rooted then cleanElems rooted es (out @ [''..''])
         else cleanElems rooted es out)
      else cleanElems rooted es (out @ [e]))"

definition path_Clean :: "string \<Rightarrow> string" where
  "path_Clean p =
     (if p = [] then ''.''
      else (let rooted = (hd p = CHR ''/'');
                out = cleanElems rooted (splitSlash p) [];
                s = (if rooted then ''/'' else []) @ joinSlash out
            in if s = [] then ''.'' else s))"

definition path_Join' :: "string \<Rightarrow> string \<Rightarrow> string" where
  "path_Join' a b =
     (if a = [] \<and> b = [] then []
      else path_Clean (joinSlash (filter (\<lambda>e. e \<noteq> []) [a, b])))"

text \<open>The sample environment with \<^verbatim>\<open>path.Join\<close> as Go has it.\<close>

definition cleanEnv :: env where
  "cleanEnv = sampleEnv\<lparr>path_Join := path_Join'\<rparr>"

text \<open>
  A working directory that holds a file \<^verbatim>\<open>a.log\<close> and a symbolic link \<^verbatim>\<open>ln\<close> to a
  directory \<^verbatim>\<open>real/sub\<close>. The system resolves \<^verbatim>\<open>ln/..\<close> to \<^verbatim>\<open>real\<close>, which holds one file,
  also named \<^verbatim>\<open>a.log\<close>: the system reaches that file by the path \<^verbatim>\<open>ln/../a.log\<close>, and the
  path \<^verbatim>\<open>a.log\<close> is the file of the working directory. The run is started with
  \<^verbatim>\<open>--path ln/.. --pattern log --yes\<close>.
\<close>

definition linkWorld :: world where
  "linkWorld =
     \<lparr>w_open = (\<lambda>p. if p = ''ln/..''
                     then Handle (Some True)
                            (Some [\<lparr>de_Name = ''a.log'', de_IsDir = False, de_Info = Some fileA\<rparr>])
                     else OpenErr),
      w_disk = [''a.log'', ''ln/../a.log''],
      w_protected = []\<rparr>"

definition linkFlags :: flags where
  "linkFlags = sampleFlags\<lparr>f_path := ''ln/..'', f_yes := True\<rparr>"

section \<open>The sample directory, evaluated\<close>

lemma sample_base: "path_Base ''./delete-old-files'' = ''delete-old-files''"
  by (simp add: path_Base_def)

lemma sample_listing: "listByTime insertionSort sampleWorld ''d'' = Ok [fileA, fileB, fileC]"
  by (simp add: listByTime_def sampleWorld_def sampleEntries_def insertionSort_def Less_def
      fileA_def fileB_def fileC_def)

lemma sample_match:
  "MatchString (\<lambda>u v w. v = ''log'') ''a.log''"
  "MatchString (\<lambda>u v w. v = ''log'') ''b.log''"
  "MatchString (\<lambda>u v w. v = ''log'') ''catalog.txt''"
  by (simp_all add: MatchString_def splits3_def)

lemma sample_matches:
  "patternFilter ''delete-old-files'' (\<lambda>u v w. v = ''log'') [fileA, fileB, fileC] []
     = [fileA, fileB, fileC]"
  using sample_match by (simp add: fileA_def fileB_def fileC_def)

lemma sample_selectMatches:
  assumes "f_pattern ctx = ''log''" "f_path ctx = ''d''"
  shows "selectMatches sampleEnv ''./delete-old-files'' ctx sampleWorld
     = (case countSelect (f_number ctx) [fileA, fileB, fileC] of
          AllKept \<Rightarrow> Inl (RetNil,
             [Println ''All matching files will be kept due to given number flag''])
        | SlicePanic \<Rightarrow> Inl (Panic, [])
        | Selected arrMatch \<Rightarrow> Inr arrMatch)"
proof -
  have "regexp_Compile sampleEnv (f_pattern ctx) = Some (\<lambda>u v w. v = ''log'')"
    using assms by (simp add: sampleEnv_def)
  moreover have "listByTime (sort_Sort sampleEnv) sampleWorld (f_path ctx)
          = Ok [fileA, fileB, fileC]"
    using sample_listing assms by (simp add: sampleEnv_def)
  moreover have "[fileA, fileB, fileC] \<noteq> []" by simp
  ultimately show ?thesis
    unfolding selectMatches_def
    by (simp add: sample_base sample_matches Let_def del: patternFilter.simps)
qed

section \<open>Count Selector: properties\<close>

lemma sorted_wrt_take_drop:
  assumes "sorted_wrt P xs" "a \<in> set (take k xs)" "b \<in> set (drop k xs)"
  shows "P a b"
proof -
  have "sorted_wrt P (take k xs @ drop k xs)"
    using assms(1) by simp
  then show ?thesis
    using assms(2,3) unfolding sorted_wrt_append by blast
qed

text \<open>
  C1. With \<open>n = 0\<close> the Count Selector selects every match, the list unchanged. With
  \<open>n > 0\<close> it selects exactly the first \<open>min n len\<close> matches; on an oldest-first list
  these are the oldest: no match left out is older than a selected one.
\<close>

theorem countSelect_zero_and_positive:
  fixes arrMatch :: "fileInfo list"
  shows "(sint n = 0 \<longrightarrow> countSelect n arrMatch = Selected arrMatch) \<and>
         (0 < sint n \<longrightarrow>
            countSelect n arrMatch
              = Selected (take (min (nat (sint n)) (length arrMatch)) arrMatch) \<and>
            (sorted_wrt (\<lambda>a b. ModTime a \<le> ModTime b) arrMatch \<longrightarrow>
               (\<forall>a \<in> set (take (min (nat (sint n)) (length arrMatch)) arrMatch).
                \<forall>b \<in> set (drop (min (nat (sint n)) (length arrMatch)) arrMatch).
                  ModTime a \<le> ModTime b)))"
proof (intro conjI impI ballI)
  assume "sint n = 0"
  then show "countSelect n arrMatch = Selected arrMatch"
    by (simp add: countSelect_def)
next
  assume "0 < sint n"
  then show "countSelect n arrMatch
      = Selected (take (min (nat (sint n)) (length arrMatch)) arrMatch)"
    by (cases "nat (sint n) \<le> length arrMatch") (auto simp: countSelect_def)
next
  fix a b
  assume "sorted_wrt (\<lambda>a b. ModTime a \<le> ModTime b) arrMatch"
    and "a \<in> set (take (min (nat (sint n)) (length arrMatch)) arrMatch)"
    and "b \<in> set (drop (min (nat (sint n)) (length arrMatch)) arrMatch)"
  then show "ModTime a \<le> ModTime b"
    by (rule sorted_wrt_take_drop)
qed

theorem countSelect_zero_and_positive_witness:
  "countSelect 0 [fileA, fileB, fileC] = Selected [fileA, fileB, fileC] \<and>
   countSelect 2 [fileA, fileB, fileC] = Selected [fileA, fileB] \<and>
   countSelect 5 [fileA, fileB, fileC] = Selected [fileA, fileB, fileC] \<and>
   ModTime fileA \<le> ModTime fileC \<and> ModTime fileB \<le> ModTime fileC"
proof -
  have srt: "sorted_wrt (\<lambda>a b. ModTime a \<le> ModTime b) [fileA, fileB, fileC]"
    by (simp add: fileA_def fileB_def fileC_def)
  have m2: "min (nat (sint (2 :: 64 word))) (length [fileA, fileB, fileC]) = 2"
    by simp
  have m5: "min (nat (sint (5 :: 64 word))) (length [fileA, fileB, fileC]) = 3"
    by simp
  have t2: "take 2 [fileA, fileB, fileC] = [fileA, fileB]"
    by (simp add: numeral_2_eq_2)
  have d2: "drop 2 [fileA, fileB, fileC] = [fileC]"
    by (simp add: numeral_2_eq_2)
  note z = countSelect_zero_and_positive [of 0 "[fileA, fileB, fileC]"]
  note p2 = countSelect_zero_and_positive [of 2 "[fileA, fileB, fileC]", unfolded m2 t2 d2]
  note p5 = countSelect_zero_and_positive [of 5 "[fileA, fileB, fileC]", unfolded m5]
  from z have "countSelect 0 [fileA, fileB, fileC] = Selected [fileA, fileB, fileC]"
    by simp
  moreover from p2 srt have "countSelect 2 [fileA, fileB, fileC] = Selected [fileA, fileB]"
    and "ModTime fileA \<le> ModTime fileC" and "ModTime fileB \<le> ModTime fileC"
    by simp_all
  moreover from p5 have "countSelect 5 [fileA, fileB, fileC] = Selected [fileA, fileB, fileC]"
    by simp
  ultimately show ?thesis by simp
qed

subsection \<open>Negative numbers\<close>

lemma sint_neg_64:
  fixes n :: "64 word"
  assumes "n \<noteq> - 9223372036854775808"
  shows "sint (- n) = - sint n"
proof -
  have ge: "- 9223372036854775808 \<le> sint n"
    using sint_ge [of n] by simp
  have lt: "sint n < 9223372036854775808"
    using sint_lt [of n] by simp
  have "sint n \<noteq> - 9223372036854775808"
  proof
    assume "sint n = - 9223372036854775808"
    then have "(word_of_int (sint n) :: 64 word) = word_of_int (- 9223372036854775808)"
      by simp
    then show False using assms by simp
  qed
  with ge have gt: "- 9223372036854775808 < sint n" by linarith
  have "- n = (word_of_int (- sint n) :: 64 word)"
    by simp
  then have "sint (- n) = sint (word_of_int (- sint n) :: 64 word)"
    by simp
  also have "\<dots> = signed_take_bit 63 (- sint n)"
    by (simp only: Word.signed_of_int) simp
  also have "\<dots> = - sint n"
    using gt lt by (intro signed_take_bit_int_eq_self) simp_all
  finally show ?thesis .
qed

text \<open>
  For every negative \<open>n\<close> other than the least \<^verbatim>\<open>int\<close>, the Count Selector keeps the
  \<open>- n\<close> newest matches: with more than \<open>- n\<close> matches it selects the first \<open>len + n\<close>,
  otherwise the run ends with the message that all files are kept.
\<close>

lemma countSelect_negative:
  fixes n :: "64 word"
  assumes "sint n < 0" "n \<noteq> - 9223372036854775808"
  shows "countSelect n arrMatch =
           (if int (length arrMatch) > - sint n
            then Selected (take (nat (int (length arrMatch) + sint n)) arrMatch)
            else AllKept)"
  using assms by (simp add: countSelect_def sint_neg_64 Let_def)

text \<open>
  With such an \<open>n\<close> and at most \<open>- n\<close> matches, the run prints the message, removes
  nothing and returns nil.
\<close>

lemma all_kept_run:
  assumes "regexp_Compile E (f_pattern ctx) = Some re"
    and "listByTime (sort_Sort E) w (f_path ctx) = Ok arrFileInfo"
    and "patternFilter (path_Base args0) re arrFileInfo [] = arrMatch"
    and "arrMatch \<noteq> []"
    and "sint (f_number ctx) < 0" and "f_number ctx \<noteq> - 9223372036854775808"
    and "int (length arrMatch) \<le> - sint (f_number ctx)"
  shows "Action E args0 ctx U w
           = (RetNil, [Println ''All matching files will be kept due to given number flag''], w)"
proof -
  have "countSelect (f_number ctx) arrMatch = AllKept"
    using assms(5,6,7) by (simp add: countSelect_negative)
  then have "selectMatches E args0 ctx w
      = Inl (RetNil, [Println ''All matching files will be kept due to given number flag''])"
    using assms(1,2,3,4) unfolding selectMatches_def
    by (simp add: Let_def del: patternFilter.simps)
  then show ?thesis
    by (simp add: Action_def)
qed

text \<open>
  C2. At the least \<^verbatim>\<open>int\<close>, \<open>- 2 ^ 63\<close>, the negation \<^verbatim>\<open>-number\<close> wraps to the same
  value: the test \<^verbatim>\<open>len(arrMatch) > -number\<close> holds for every list and
  \<^verbatim>\<open>arrMatch[:len(arrMatch)+number]\<close> has a negative bound. With three matches, where
  keeping the \<open>2 ^ 63\<close> newest keeps them all, the run panics: no message is printed
  and the exit code is not zero.
\<close>

theorem number_min_int_panics:
  "countSelect (- 9223372036854775808) [fileA, fileB, fileC] = SlicePanic \<and>
   Action sampleEnv ''./delete-old-files''
     (sampleFlags\<lparr>f_number := - 9223372036854775808\<rparr>) sampleUser sampleWorld
     = (Panic, [], sampleWorld) \<and>
   exitCode Panic = 2"
proof -
  have c: "countSelect (- 9223372036854775808) [fileA, fileB, fileC] = SlicePanic"
    by (simp add: countSelect_def)
  have "selectMatches sampleEnv ''./delete-old-files''
          (sampleFlags\<lparr>f_number := - 9223372036854775808\<rparr>) sampleWorld = Inl (Panic, [])"
    using c by (simp add: sample_selectMatches sampleFlags_def)
  then have "Action sampleEnv ''./delete-old-files''
      (sampleFlags\<lparr>f_number := - 9223372036854775808\<rparr>) sampleUser sampleWorld
      = (Panic, [], sampleWorld)"
    by (simp add: Action_def)
  with c show ?thesis by simp
qed

section \<open>Pattern Filter: properties\<close>

lemma set_splits2: "set (splits2 s) = {(u, v). u @ v = s}"
proof (induction s)
  case Nil
  then show ?case by auto
next
  case (Cons c s)
  show ?case
  proof (rule set_eqI)
    fix x :: "string \<times> string"
    obtain u v where x: "x = (u, v)" by (cases x)
    show "x \<in> set (splits2 (c # s)) \<longleftrightarrow> x \<in> {(u, v). u @ v = c # s}"
      unfolding x using Cons.IH by (cases u) (auto simp: image_iff)
  qed
qed

lemma set_splits3: "set (splits3 s) = {(u, v, w). u @ v @ w = s}"
  by (auto simp: splits3_def set_splits2)

lemma MatchString_iff: "MatchString re s \<longleftrightarrow> (\<exists>u v w. s = u @ v @ w \<and> re u v w)"
  by (auto simp: MatchString_def list_ex_iff set_splits3)

lemma patternFilter_eq:
  "patternFilter self re arrFileInfo arrMatch
     = arrMatch @ filter (\<lambda>fi. Name fi \<noteq> self \<and> MatchString re (Name fi)) arrFileInfo"
  by (induction arrFileInfo arbitrary: arrMatch) auto

text \<open>
  C3. Whatever the listing and the pattern, no file named like the base name of
  \<^verbatim>\<open>os.Args[0]\<close> is among the matches. The matches are exactly the other files of the
  listing whose name the expression matches, in the order of the listing; so an
  oldest-first listing gives oldest-first matches.
\<close>

theorem patternFilter_excludes_self:
  "(\<forall>fi \<in> set (patternFilter (path_Base args0) re arrFileInfo []).
      Name fi \<noteq> path_Base args0) \<and>
   patternFilter (path_Base args0) re arrFileInfo []
     = filter (\<lambda>fi. MatchString re (Name fi))
         (filter (\<lambda>fi. Name fi \<noteq> path_Base args0) arrFileInfo) \<and>
   (sorted_wrt (\<lambda>a b. ModTime a \<le> ModTime b) arrFileInfo \<longrightarrow>
      sorted_wrt (\<lambda>a b. ModTime a \<le> ModTime b)
        (patternFilter (path_Base args0) re arrFileInfo []))"
proof (intro conjI ballI impI)
  fix fi
  assume "fi \<in> set (patternFilter (path_Base args0) re arrFileInfo [])"
  then show "Name fi \<noteq> path_Base args0"
    by (simp add: patternFilter_eq)
next
  show "patternFilter (path_Base args0) re arrFileInfo []
     = filter (\<lambda>fi. MatchString re (Name fi))
         (filter (\<lambda>fi. Name fi \<noteq> path_Base args0) arrFileInfo)"
    by (simp add: patternFilter_eq conj_commute)
next
  assume "sorted_wrt (\<lambda>a b. ModTime a \<le> ModTime b) arrFileInfo"
  then show "sorted_wrt (\<lambda>a b. ModTime a \<le> ModTime b)
      (patternFilter (path_Base args0) re arrFileInfo [])"
    by (simp add: patternFilter_eq sorted_wrt_filter)
qed

theorem patternFilter_excludes_self_witness:
  "path_Base ''/usr/bin/b.log'' = ''b.log'' \<and>
   MatchString (\<lambda>u v w. v = ''log'') (Name fileB) \<and>
   patternFilter (path_Base ''/usr/bin/b.log'') (\<lambda>u v w. v = ''log'') [fileA, fileB, fileC] []
     = [fileA, fileC]"
proof -
  have b: "path_Base ''/usr/bin/b.log'' = ''b.log''"
    by (simp add: path_Base_def)
  have m: "MatchString (\<lambda>u v w. v = ''log'') (Name fileA)"
    "MatchString (\<lambda>u v w. v = ''log'') (Name fileB)"
    "MatchString (\<lambda>u v w. v = ''log'') (Name fileC)"
    using sample_match by (simp_all add: fileA_def fileB_def fileC_def)
  have n: "Name fileA \<noteq> ''b.log''" "Name fileB = ''b.log''" "Name fileC \<noteq> ''b.log''"
    by (simp_all add: fileA_def fileB_def fileC_def)
  have srt: "sorted_wrt (\<lambda>a b. ModTime a \<le> ModTime b) [fileA, fileB, fileC]"
    by (simp add: fileA_def fileB_def fileC_def)
  from patternFilter_excludes_self
         [of "''/usr/bin/b.log''" "\<lambda>u v w. v = ''log''" "[fileA, fileB, fileC]"] srt
  have "patternFilter (path_Base ''/usr/bin/b.log'') (\<lambda>u v w. v = ''log'')
          [fileA, fileB, fileC] []
        = filter (\<lambda>fi. MatchString (\<lambda>u v w. v = ''log'') (Name fi))
            (filter (\<lambda>fi. Name fi \<noteq> path_Base ''/usr/bin/b.log'') [fileA, fileB, fileC])"
    by blast
  also have "\<dots> = [fileA, fileC]"
    using m n by (simp add: b)
  finally show ?thesis using b m by simp
qed

text \<open>
  C9. Matching is not anchored: a file of the listing, not named like the program, is
  accepted exactly when its name splits into \<open>u @ v @ w\<close> with the expression matching
  the part \<open>v\<close>; the expression need not match the whole name.
\<close>

theorem patternFilter_unanchored:
  "fi \<in> set (patternFilter fileNameSelf re arrFileInfo []) \<longleftrightarrow>
     fi \<in> set arrFileInfo \<and> Name fi \<noteq> fileNameSelf \<and>
     (\<exists>u v w. Name fi = u @ v @ w \<and> re u v w)"
proof -
  have "patternFilter fileNameSelf re arrFileInfo []
          = filter (\<lambda>fi. Name fi \<noteq> fileNameSelf \<and> MatchString re (Name fi)) arrFileInfo"
    by (simp add: patternFilter_eq)
  then have "fi \<in> set (patternFilter fileNameSelf re arrFileInfo []) \<longleftrightarrow>
      fi \<in> set arrFileInfo \<and> Name fi \<noteq> fileNameSelf \<and> MatchString re (Name fi)"
    by auto
  then show ?thesis
    by (simp add: MatchString_iff)
qed

theorem patternFilter_unanchored_witness:
  "fileC \<in> set (patternFilter ''delete-old-files'' (\<lambda>u v w. v = ''log'') [fileC] []) \<and>
   Name fileC = ''catalog.txt'' \<and> ''catalog.txt'' \<noteq> ''log''"
proof -
  have "Name fileC = ''cata'' @ ''log'' @ ''.txt''"
    by (simp add: fileC_def)
  then have "\<exists>u v w. Name fileC = u @ v @ w \<and> v = ''log''"
    by blast
  moreover have "Name fileC \<noteq> ''delete-old-files''"
    by (simp add: fileC_def)
  ultimately have "fileC \<in> set (patternFilter ''delete-old-files'' (\<lambda>u v w. v = ''log'') [fileC] [])"
    using patternFilter_unanchored
            [of fileC "''delete-old-files''" "\<lambda>u v w. v = ''log''" "[fileC]"]
    by simp
  then show ?thesis by (simp add: fileC_def)
qed

section \<open>Directory Lister: properties\<close>

lemma collectInfo_eq:
  "collectInfo arrFiles arrFileInfo
     = arrFileInfo @ map (the \<circ> de_Info) (filter (\<lambda>f. \<not> de_IsDir f \<and> de_Info f \<noteq> None) arrFiles)"
  by (induction arrFiles arbitrary: arrFileInfo) (auto split: option.splits)

subsection \<open>The sample sorters meet the contract of \<^verbatim>\<open>sort.Sort\<close>\<close>

text \<open>
  \<^verbatim>\<open>sort.Sort\<close> is documented to sort the data in ascending order as determined by
  \<^verbatim>\<open>Less\<close>, by calls of \<^verbatim>\<open>Swap\<close> alone, and not to be stable: its result is a
  permutation of the input in which no element is \<^verbatim>\<open>Less\<close> than an earlier one.
\<close>

lemma mset_insertLess: "mset (insertLess lt x xs) = add_mset x (mset xs)"
  by (induction xs) auto

lemma set_insertLess: "set (insertLess lt x xs) = insert x (set xs)"
  by (induction xs) auto

lemma sorted_insertLess:
  assumes asym: "\<And>a b. lt a b \<Longrightarrow> \<not> lt b a"
    and trans: "\<And>a b c. lt a b \<Longrightarrow> lt b c \<Longrightarrow> lt a c"
    and "sorted_wrt (\<lambda>a b. \<not> lt b a) xs"
  shows "sorted_wrt (\<lambda>a b. \<not> lt b a) (insertLess lt x xs)"
  using assms(3)
proof (induction xs)
  case Nil
  then show ?case by simp
next
  case (Cons y ys)
  show ?case
  proof (cases "lt x y")
    case True
    have "\<not> lt z x" if "z \<in> set ys" for z
    proof
      assume "lt z x"
      then have "lt z y" using True trans by blast
      moreover have "\<not> lt z y" using Cons.prems that by simp
      ultimately show False by simp
    qed
    then show ?thesis using True Cons.prems asym by auto
  next
    case False
    then show ?thesis using Cons by (auto simp: set_insertLess)
  qed
qed

lemma mset_foldl_insertLess:
  "mset (foldl (\<lambda>sorted x. insertLess lt x sorted) acc xs) = mset acc + mset xs"
  by (induction xs arbitrary: acc) (auto simp: mset_insertLess)

lemma sorted_foldl_insertLess:
  assumes "\<And>a b. lt a b \<Longrightarrow> \<not> lt b a"
    and "\<And>a b c. lt a b \<Longrightarrow> lt b c \<Longrightarrow> lt a c"
    and "sorted_wrt (\<lambda>a b. \<not> lt b a) acc"
  shows "sorted_wrt (\<lambda>a b. \<not> lt b a) (foldl (\<lambda>sorted x. insertLess lt x sorted) acc xs)"
  using assms(3)
proof (induction xs arbitrary: acc)
  case Nil
  then show ?case by simp
next
  case (Cons x xs)
  show ?case
    using Cons.IH [OF sorted_insertLess [OF assms(1,2) Cons.prems]] by simp
qed

lemma mset_insertionSort: "mset (insertionSort lt xs) = mset xs"
  by (simp add: insertionSort_def mset_foldl_insertLess)

lemma sorted_insertionSort_Less: "sorted_wrt (\<lambda>a b. \<not> Less b a) (insertionSort Less xs)"
  unfolding insertionSort_def
  by (rule sorted_foldl_insertLess) (auto simp: Less_def)

text \<open>
  The contract leaves the order of equal timestamps open: \<open>tieReversingSort\<close> meets
  it and swaps two files of the same age.
\<close>

lemma mset_tieReversingSort: "mset (tieReversingSort lt xs) = mset xs"
  by (simp add: tieReversingSort_def mset_insertionSort)

lemma sorted_tieReversingSort_Less:
  "sorted_wrt (\<lambda>a b. \<not> Less b a) (tieReversingSort Less xs)"
proof -
  have "sorted_wrt (\<lambda>a b. \<not> (\<lambda>a b. Less b a) b a) (insertionSort (\<lambda>a b. Less b a) xs)"
    unfolding insertionSort_def
    by (rule sorted_foldl_insertLess) (auto simp: Less_def)
  then show ?thesis
    by (simp add: tieReversingSort_def sorted_wrt_rev)
qed

lemma tieReversingSort_reorders:
  "tieReversingSort Less [fileA, fileA2] = [fileA2, fileA] \<and> ModTime fileA = ModTime fileA2"
  by (simp add: tieReversingSort_def insertionSort_def Less_def fileA_def fileA2_def)

subsection \<open>The listing\<close>

text \<open>
  C4, as the code has it. Let \<^verbatim>\<open>sort.Sort\<close> meet its contract. When the path opens as a
  directory and is read, \<^verbatim>\<open>listByTime\<close> succeeds, and it succeeds in no other case; the
  result holds exactly the infos of the non-directory entries whose \<^verbatim>\<open>Info()\<close>
  succeeded, each once per entry, in ascending order of modification time. Nothing is
  said about the order of files of the same age.
\<close>

theorem listByTime_sorted_permutation:
  assumes perm: "\<And>xs. mset (srt Less xs) = mset xs"
    and sorted: "\<And>xs. sorted_wrt (\<lambda>a b. \<not> Less b a) (srt Less xs)"
  shows "(w_open w dir = Handle (Some True) (Some arrFiles) \<longrightarrow>
            (\<exists>arr. listByTime srt w dir = Ok arr \<and>
               mset arr = mset (map (the \<circ> de_Info)
                                 (filter (\<lambda>f. \<not> de_IsDir f \<and> de_Info f \<noteq> None) arrFiles)) \<and>
               sorted_wrt (\<lambda>a b. ModTime a \<le> ModTime b) arr)) \<and>
         (listByTime srt w dir = Ok arr' \<longrightarrow>
            (\<exists>arrFiles'. w_open w dir = Handle (Some True) (Some arrFiles')))"
proof (intro conjI impI)
  assume h: "w_open w dir = Handle (Some True) (Some arrFiles)"
  let ?infos = "map (the \<circ> de_Info) (filter (\<lambda>f. \<not> de_IsDir f \<and> de_Info f \<noteq> None) arrFiles)"
  have "listByTime srt w dir = Ok (srt Less ?infos)"
    using h by (simp add: listByTime_def collectInfo_eq)
  moreover have "mset (srt Less ?infos) = mset ?infos"
    by (rule perm)
  moreover have "sorted_wrt (\<lambda>a b. ModTime a \<le> ModTime b) (srt Less ?infos)"
    using sorted [of ?infos] by (simp add: Less_def not_less)
  ultimately show "\<exists>arr. listByTime srt w dir = Ok arr \<and> mset arr = mset ?infos \<and>
      sorted_wrt (\<lambda>a b. ModTime a \<le> ModTime b) arr"
    by blast
next
  assume "listByTime srt w dir = Ok arr'"
  then show "\<exists>arrFiles'. w_open w dir = Handle (Some True) (Some arrFiles')"
    by (auto simp: listByTime_def split: dirState.splits option.splits if_splits)
qed

theorem listByTime_sorted_permutation_witness:
  "listByTime insertionSort sampleWorld ''d'' = Ok [fileA, fileB, fileC] \<and>
   mset [fileA, fileB, fileC] = mset [fileC, fileB, fileA] \<and>
   sorted_wrt (\<lambda>a b. ModTime a \<le> ModTime b) [fileA, fileB, fileC]"
proof -
  have o: "w_open sampleWorld ''d'' = Handle (Some True) (Some sampleEntries)"
    by (simp add: sampleWorld_def)
  have i: "map (the \<circ> de_Info) (filter (\<lambda>f. \<not> de_IsDir f \<and> de_Info f \<noteq> None) sampleEntries)
             = [fileC, fileB, fileA]"
    by (simp add: sampleEntries_def)
  from listByTime_sorted_permutation
         [of insertionSort sampleWorld "''d''" sampleEntries,
          OF mset_insertionSort sorted_insertionSort_Less, unfolded i] o
  obtain arr where a: "listByTime insertionSort sampleWorld ''d'' = Ok arr"
    and m: "mset arr = mset [fileC, fileB, fileA]"
    and s: "sorted_wrt (\<lambda>a b. ModTime a \<le> ModTime b) arr"
    by blast
  from a have "arr = [fileA, fileB, fileC]"
    by (simp add: sample_listing)
  with a m s show ?thesis
    by (simp only:)
qed

text \<open>
  C4 as stated fails: a non-directory entry whose \<^verbatim>\<open>Info()\<close> returns an error is
  left out of the result, and the call still succeeds.
\<close>

theorem listByTime_skips_failed_info:
  "w_open goneWorld ''d''
     = Handle (Some True)
         (Some [\<lparr>de_Name = ''gone.log'', de_IsDir = False, de_Info = None\<rparr>,
                \<lparr>de_Name = ''a.log'', de_IsDir = False, de_Info = Some fileA\<rparr>]) \<and>
   listByTime insertionSort goneWorld ''d'' = Ok [fileA] \<and>
   ''gone.log'' \<notin> set (map Name [fileA])"
  by (simp add: goneWorld_def goneEntries_def listByTime_def insertionSort_def fileA_def)

section \<open>Presenter: properties\<close>

lemma printLoop_eq:
  "printLoop E r i totalSize rows
     = (totalSize + word_of_int (sum_list (map Size r)),
        rows @ map (\<lambda>fi. [Name fi, humanize_IBytes E (word_of_int (Size fi)),
                           time_Format E (ModTime fi)])
                 (take (truncateLen - i) r))"
proof (induction r arbitrary: i totalSize rows)
  case Nil
  then show ?case by simp
next
  case (Cons fi r)
  show ?case
  proof (cases "i \<ge> truncateLen")
    case True
    then show ?thesis by (simp add: Cons.IH Let_def)
  next
    case False
    then have "truncateLen - i = Suc (truncateLen - (i + 1))" by simp
    then show ?thesis using False by (simp add: Cons.IH Let_def)
  qed
qed

lemma decimal_30: "decimal 30 = ''30''"
  by (simp add: decimal.simps [of 30] decimal.simps [of 3])

text \<open>
  C8. The table holds one row for each of the first 30 selected records, in the order
  of the selection. The summary line gives the number of all selected records and
  the sum of all their sizes (a \<^verbatim>\<open>uint64\<close>: the sum modulo \<open>2 ^ 64\<close>), and it starts
  with the truncation notice exactly when more than 30 records are selected.
\<close>

theorem printResult_summary:
  "printResult E r
     = [TableRender
          (map (\<lambda>fi. [Name fi, humanize_IBytes E (word_of_int (Size fi)),
                       time_Format E (ModTime fi)])
             (take 30 r)),
        Println
          ((if length r > 30 then ''Showing first 30 files only, '' else [])
           @ ''Total: '' @ decimal (length r) @ '' file(s), ''
           @ humanize_IBytes E (word_of_int (sum_list (map Size r))))] \<and>
   (\<forall>rows hint. printResult E r = [TableRender rows, Println hint] \<longrightarrow>
      (prefix ''Showing first 30 files only, '' hint \<longleftrightarrow> length r > 30))"
proof -
  have eq: "printResult E r
     = [TableRender
          (map (\<lambda>fi. [Name fi, humanize_IBytes E (word_of_int (Size fi)),
                       time_Format E (ModTime fi)])
             (take 30 r)),
        Println
          ((if length r > 30 then ''Showing first 30 files only, '' else [])
           @ ''Total: '' @ decimal (length r) @ '' file(s), ''
           @ humanize_IBytes E (word_of_int (sum_list (map Size r))))]"
    by (simp add: printResult_def printLoop_eq truncateLen_def decimal_30)
  show ?thesis
  proof (intro conjI allI impI)
    show "printResult E r
     = [TableRender
          (map (\<lambda>fi. [Name fi, humanize_IBytes E (word_of_int (Size fi)),
                       time_Format E (ModTime fi)])
             (take 30 r)),
        Println
          ((if length r > 30 then ''Showing first 30 files only, '' else [])
           @ ''Total: '' @ decimal (length r) @ '' file(s), ''
           @ humanize_IBytes E (word_of_int (sum_list (map Size r))))]"
      by (rule eq)
  next
    fix rows hint
    assume "printResult E r = [TableRender rows, Println hint]"
    with eq have h: "hint = (if length r > 30 then ''Showing first 30 files only, '' else [])
           @ ''Total: '' @ decimal (length r) @ '' file(s), ''
           @ humanize_IBytes E (word_of_int (sum_list (map Size r)))"
      by simp
    show "prefix ''Showing first 30 files only, '' hint \<longleftrightarrow> length r > 30"
      unfolding h by simp
  qed
qed

lemma decimal_digit:
  "decimal (Suc 0) = ''1''" "decimal 2 = ''2''" "decimal 3 = ''3''" "decimal 5 = ''5''"
  "decimal 7 = ''7''" "decimal 9 = ''9''"
  by (simp_all add: decimal.simps [of "Suc 0"] decimal.simps [of 2] decimal.simps [of 3]
      decimal.simps [of 5] decimal.simps [of 7] decimal.simps [of 9])

lemma decimal_small:
  "decimal 15 = ''15''" "decimal 21 = ''21''" "decimal 31 = ''31''" "decimal 155 = ''155''"
proof -
  show "decimal 15 = ''15''" "decimal 21 = ''21''" "decimal 31 = ''31''"
    by (simp_all add: decimal.simps [of 15] decimal.simps [of 21] decimal.simps [of 31]
        decimal_digit)
  then show "decimal 155 = ''155''"
    by (simp add: decimal.simps [of 155])
qed

theorem printResult_summary_witness:
  "printResult sampleEnv (replicate 31 fileA)
     = [TableRender (replicate 30 [''a.log'', ''5 B'', ''1'']),
        Println ''Showing first 30 files only, Total: 31 file(s), 155 B''] \<and>
   printResult sampleEnv [fileA, fileB, fileC]
     = [TableRender [[''a.log'', ''5 B'', ''1''], [''b.log'', ''7 B'', ''2''],
                     [''catalog.txt'', ''9 B'', ''3'']],
        Println ''Total: 3 file(s), 21 B'']"
proof -
  have u: "unat (5 :: 64 word) = 5" "unat (7 :: 64 word) = 7" "unat (9 :: 64 word) = 9"
    "unat (21 :: 64 word) = 21" "unat (155 :: 64 word) = 155"
    by simp_all
  have l: "length [fileA, fileB, fileC] = 3"
    by simp
  have "printResult sampleEnv (replicate 31 fileA)
     = [TableRender (replicate 30 [''a.log'', ''5 B'', ''1'']),
        Println ''Showing first 30 files only, Total: 31 file(s), 155 B'']"
    using printResult_summary [of sampleEnv "replicate 31 fileA"]
    by (simp add: sampleEnv_def fileA_def sum_list_replicate u decimal_digit decimal_small)
  moreover have "printResult sampleEnv [fileA, fileB, fileC]
     = [TableRender [[''a.log'', ''5 B'', ''1''], [''b.log'', ''7 B'', ''2''],
                     [''catalog.txt'', ''9 B'', ''3'']],
        Println ''Total: 3 file(s), 21 B'']"
    using printResult_summary [of sampleEnv "[fileA, fileB, fileC]", unfolded l]
    by (simp add: sampleEnv_def fileA_def fileB_def fileC_def u decimal_digit decimal_small)
  ultimately show ?thesis by simp
qed

section \<open>Deleter: properties\<close>

lemma removals_simps [simp]:
  "removals [] = []"
  "removals (OsRemove p ok # evs) = p # removals evs"
  "removals (LogPrintln s # evs) = removals evs"
  "removals (Println s # evs) = removals evs"
  "removals (TableRender rows # evs) = removals evs"
  "removals (AskSelect # evs) = removals evs"
  "removals (AskMultiSelect opts # evs) = removals evs"
  "removals (evs @ evs') = removals evs @ removals evs'"
  by (simp_all add: removals_def)

text \<open>
  What the Deleter does, read off the world it starts in. Let the paths built for the
  files be distinct. A call of \<^verbatim>\<open>os.Remove\<close> succeeds exactly for a path that is on disk
  and not protected. Every path is tried, in order, whatever the earlier calls
  returned, and every failure is logged; the result is the error exactly when some
  call failed, and otherwise nil after the line that reports success. The paths
  removed from the disk are those tried with success, and no other.
\<close>

lemma deleteLoop_distinct:
  assumes "distinct (map (\<lambda>fi. join p (Name fi)) fis)"
  shows "deleteLoop join p (map Some fis) hasErr evs w =
     (Some (hasErr \<or> (\<exists>fi \<in> set fis. \<not> (join p (Name fi) \<in> set (w_disk w) \<and>
                                          join p (Name fi) \<notin> set (w_protected w)))),
      evs @ concat (map (\<lambda>fi. if join p (Name fi) \<in> set (w_disk w) \<and>
                                  join p (Name fi) \<notin> set (w_protected w)
                               then [OsRemove (join p (Name fi)) True]
                               else [OsRemove (join p (Name fi)) False,
                                     LogPrintln (join p (Name fi))]) fis),
      w\<lparr>w_disk := filter (\<lambda>q. q \<notin> (\<lambda>fi. join p (Name fi)) ` set fis \<or>
                                q \<in> set (w_protected w))
                     (w_disk w)\<rparr>)"
  using assms
proof (induction fis arbitrary: hasErr evs w)
  case Nil
  then show ?case by simp
next
  case (Cons fi fis)
  let ?q = "join p (Name fi)"
  from Cons.prems have d: "distinct (map (\<lambda>fi. join p (Name fi)) fis)"
    and ni: "?q \<notin> (\<lambda>fi. join p (Name fi)) ` set fis"
    by simp_all
  from ni have nq: "\<And>fi'. fi' \<in> set fis \<Longrightarrow> join p (Name fi') \<noteq> ?q"
    by (metis imageI)
  show ?case
  proof (cases "?q \<in> set (w_disk w) \<and> ?q \<notin> set (w_protected w)")
    case True
    let ?w1 = "w\<lparr>w_disk := removeAll ?q (w_disk w)\<rparr>"
    have r: "os_Remove w ?q = (True, ?w1)"
      using True by (simp add: os_Remove_def)
    have m: "\<And>fi'. fi' \<in> set fis \<Longrightarrow>
        (join p (Name fi') \<in> set (w_disk ?w1) \<and> join p (Name fi') \<notin> set (w_protected ?w1))
        = (join p (Name fi') \<in> set (w_disk w) \<and> join p (Name fi') \<notin> set (w_protected w))"
      using nq by simp
    have e: "(\<exists>fi' \<in> set fis. \<not> (join p (Name fi') \<in> set (w_disk ?w1) \<and>
                                    join p (Name fi') \<notin> set (w_protected ?w1)))
           = (\<exists>fi' \<in> set fis. \<not> (join p (Name fi') \<in> set (w_disk w) \<and>
                                    join p (Name fi') \<notin> set (w_protected w)))"
      using m by blast
    have c: "map (\<lambda>fi. if join p (Name fi) \<in> set (w_disk ?w1) \<and>
                            join p (Name fi) \<notin> set (w_protected ?w1)
                         then [OsRemove (join p (Name fi)) True]
                         else [OsRemove (join p (Name fi)) False,
                               LogPrintln (join p (Name fi))]) fis
           = map (\<lambda>fi. if join p (Name fi) \<in> set (w_disk w) \<and>
                            join p (Name fi) \<notin> set (w_protected w)
                         then [OsRemove (join p (Name fi)) True]
                         else [OsRemove (join p (Name fi)) False,
                               LogPrintln (join p (Name fi))]) fis"
      by (rule map_cong [OF refl]) (simp only: m)
    have f: "filter (\<lambda>q. q \<notin> (\<lambda>fi. join p (Name fi)) ` set fis \<or> q \<in> set (w_protected ?w1))
               (w_disk ?w1)
           = filter (\<lambda>q. q \<notin> (\<lambda>fi. join p (Name fi)) ` set (fi # fis) \<or>
                          q \<in> set (w_protected w))
               (w_disk w)"
      using True by (auto simp: removeAll_filter_not_eq intro!: filter_cong)
    show ?thesis
      using True
      by (simp only: list.map deleteLoop.simps r prod.case if_True Cons.IH [OF d] e c f)
        simp
  next
    case False
    have r: "os_Remove w ?q = (False, w)"
      using False by (simp add: os_Remove_def)
    have f: "filter (\<lambda>q. q \<notin> (\<lambda>fi. join p (Name fi)) ` set fis \<or> q \<in> set (w_protected w))
               (w_disk w)
           = filter (\<lambda>q. q \<notin> (\<lambda>fi. join p (Name fi)) ` set (fi # fis) \<or>
                          q \<in> set (w_protected w))
               (w_disk w)"
      using False by (auto intro!: filter_cong)
    show ?thesis
      using False
      by (simp only: list.map deleteLoop.simps r prod.case if_False Cons.IH [OF d] f)
        auto
  qed
qed

lemma deleter_distinct:
  assumes "distinct (map (\<lambda>fi. path_Join E prefix' (Name fi)) fis)"
  shows "deleter E prefix' (map Some fis) w =
     ((if \<forall>fi \<in> set fis. path_Join E prefix' (Name fi) \<in> set (w_disk w) \<and>
                            path_Join E prefix' (Name fi) \<notin> set (w_protected w)
       then RetNil else RetError DeleteFailed),
      concat (map (\<lambda>fi. if path_Join E prefix' (Name fi) \<in> set (w_disk w) \<and>
                            path_Join E prefix' (Name fi) \<notin> set (w_protected w)
                         then [OsRemove (path_Join E prefix' (Name fi)) True]
                         else [OsRemove (path_Join E prefix' (Name fi)) False,
                               LogPrintln (path_Join E prefix' (Name fi))]) fis)
        @ (if \<forall>fi \<in> set fis. path_Join E prefix' (Name fi) \<in> set (w_disk w) \<and>
                                path_Join E prefix' (Name fi) \<notin> set (w_protected w)
           then [Println ''Finished deleting above files''] else []),
      w\<lparr>w_disk := filter (\<lambda>q. q \<notin> (\<lambda>fi. path_Join E prefix' (Name fi)) ` set fis \<or>
                                q \<in> set (w_protected w))
                     (w_disk w)\<rparr>)"
  using deleteLoop_distinct [of "path_Join E" prefix' fis False "[]" w] assms
  by (simp add: deleter_def)

lemma sample_deleter:
  "deleter sampleEnv ''d'' (map Some [fileA, fileB, fileC]) sampleWorld
     = (RetError DeleteFailed,
        [OsRemove ''d/a.log'' True, OsRemove ''d/b.log'' False, LogPrintln ''d/b.log'',
         OsRemove ''d/catalog.txt'' True],
        sampleWorld\<lparr>w_disk := [''d/b.log'']\<rparr>)"
  by (simp add: deleter_def os_Remove_def sampleEnv_def sampleWorld_def fileA_def fileB_def
      fileC_def)

text \<open>A file confirmed twice: the second call finds the path gone, fails and is logged.\<close>

lemma sample_deleter_twice:
  "deleter sampleEnv ''d'' (map Some [fileA, fileA]) sampleWorld
     = (RetError DeleteFailed,
        [OsRemove ''d/a.log'' True, OsRemove ''d/a.log'' False, LogPrintln ''d/a.log''],
        sampleWorld\<lparr>w_disk := [''d/b.log'', ''d/catalog.txt'']\<rparr>)"
  by (simp add: deleter_def os_Remove_def sampleEnv_def sampleWorld_def fileA_def)

subsection \<open>The path removed and the file listed\<close>

lemma link_join: "path_Join' ''ln/..'' ''a.log'' = ''a.log''"
  by (simp add: path_Join'_def path_Clean_def)

lemma link_listing: "listByTime (sort_Sort cleanEnv) linkWorld ''ln/..'' = Ok [fileA]"
  by (simp add: listByTime_def linkWorld_def cleanEnv_def sampleEnv_def insertionSort_def)

lemma link_selectMatches:
  "selectMatches cleanEnv ''./delete-old-files'' linkFlags linkWorld = Inr [fileA]"
proof -
  have "regexp_Compile cleanEnv (f_pattern linkFlags) = Some (\<lambda>u v w. v = ''log'')"
    by (simp add: cleanEnv_def sampleEnv_def linkFlags_def sampleFlags_def)
  moreover have "listByTime (sort_Sort cleanEnv) linkWorld (f_path linkFlags) = Ok [fileA]"
    using link_listing by (simp add: linkFlags_def)
  moreover have "patternFilter ''delete-old-files'' (\<lambda>u v w. v = ''log'') [fileA] [] = [fileA]"
    using sample_match(1) by (simp add: fileA_def)
  moreover have "countSelect (f_number linkFlags) [fileA] = Selected [fileA]"
    by (simp add: countSelect_def linkFlags_def sampleFlags_def)
  ultimately show ?thesis
    unfolding selectMatches_def
    by (simp add: sample_base Let_def del: patternFilter.simps)
qed

lemma link_deleter:
  "deleter cleanEnv ''ln/..'' (map Some [fileA]) linkWorld
     = (RetNil, [OsRemove ''a.log'' True, Println ''Finished deleting above files''],
        linkWorld\<lparr>w_disk := [''ln/../a.log'']\<rparr>)"
proof -
  have j: "path_Join cleanEnv ''ln/..'' (Name fileA) = ''a.log''"
    using link_join by (simp add: cleanEnv_def fileA_def)
  have "os_Remove linkWorld ''a.log'' = (True, linkWorld\<lparr>w_disk := [''ln/../a.log'']\<rparr>)"
    by (simp add: os_Remove_def linkWorld_def)
  then show ?thesis
    by (simp add: deleter_def j)
qed

text \<open>
  C6. The Deleter does not attempt the removal of every file of the confirmed set:
  it calls \<^verbatim>\<open>os.Remove\<close> on \<^verbatim>\<open>path.Join(prefix, fi.Name())\<close>, a path cleaned by its text
  alone. Started on \<^verbatim>\<open>ln/..\<close>, where \<^verbatim>\<open>ln\<close> is a symbolic link, the run lists the file
  the system reaches as \<^verbatim>\<open>ln/../a.log\<close> and confirms it, then removes the path \<^verbatim>\<open>a.log\<close>,
  a file of the working directory that was never listed. The listed file stays on
  disk, no failure is logged, and the run reports success and returns nil.
\<close>

theorem deleter_removes_unlisted_file:
  "listByTime (sort_Sort cleanEnv) linkWorld ''ln/..'' = Ok [fileA] \<and>
   Name fileA = ''a.log'' \<and>
   path_Join' ''ln/..'' ''a.log'' = ''a.log'' \<and>
   Action cleanEnv ''./delete-old-files'' linkFlags sampleUser linkWorld
     = (RetNil,
        printResult cleanEnv [fileA]
          @ [OsRemove ''a.log'' True, Println ''Finished deleting above files''],
        linkWorld\<lparr>w_disk := [''ln/../a.log'']\<rparr>)"
proof -
  have "confirmation (f_yes linkFlags) sampleUser [fileA] = (True, map Some [fileA], [])"
    by (simp add: confirmation_def linkFlags_def)
  moreover have "\<not> f_dry_run linkFlags" "f_path linkFlags = ''ln/..''"
    by (simp_all add: linkFlags_def sampleFlags_def)
  ultimately have "Action cleanEnv ''./delete-old-files'' linkFlags sampleUser linkWorld
     = (RetNil,
        printResult cleanEnv [fileA]
          @ [OsRemove ''a.log'' True, Println ''Finished deleting above files''],
        linkWorld\<lparr>w_disk := [''ln/../a.log'']\<rparr>)"
    using link_selectMatches link_deleter
    by (simp add: Action_def Let_def)
  then show ?thesis
    using link_listing link_join by (simp add: fileA_def)
qed

section \<open>The action: dry run and confirmation\<close>

lemma selectMatches_Inl:
  assumes "selectMatches E args0 ctx w = Inl (r, evs)"
  shows "removals evs = [] \<and> \<not> list_ex isPrompt evs \<and> AskSelect \<notin> set evs"
  using assms
  by (auto simp: selectMatches_def Let_def isPrompt_def
      split: option.splits res.splits selection.splits if_splits)

lemma printResult_events:
  "removals (printResult E r) = [] \<and> \<not> list_ex isPrompt (printResult E r) \<and>
   AskSelect \<notin> set (printResult E r)"
  by (simp add: printResult_def isPrompt_def Let_def split: prod.splits)

lemma snd_pickOptions: "snd (pickOptions arrMatch mapSel arrSel) = arrSel @ map Name arrMatch"
  by (induction arrMatch arbitrary: mapSel arrSel) auto

text \<open>
  C5. In a run with the dry-run flag, whatever the other inputs: no prompt is shown,
  \<^verbatim>\<open>os.Remove\<close> is never called and the world is left as it was. When a selection is
  reached, the run presents it and returns nil at once.
\<close>

theorem dry_run_never_deletes:
  assumes "f_dry_run ctx" and "Action E args0 ctx U w = (r, evs, w')"
  shows "w' = w \<and> removals evs = [] \<and> \<not> list_ex isPrompt evs \<and>
         (\<forall>sel. selectMatches E args0 ctx w = Inr sel \<longrightarrow>
            r = RetNil \<and> evs = printResult E sel)"
proof (cases "selectMatches E args0 ctx w")
  case (Inl a)
  obtain r0 evs0 where a: "a = (r0, evs0)" by (cases a)
  with Inl assms(2) have "r = r0" "evs = evs0" "w' = w"
    by (simp_all add: Action_def)
  with selectMatches_Inl [of E args0 ctx w r0 evs0] Inl a show ?thesis
    by simp
next
  case (Inr sel)
  with assms have "r = RetNil" "evs = printResult E sel" "w' = w"
    by (simp_all add: Action_def Let_def)
  with Inr printResult_events [of E sel] show ?thesis
    by simp
qed

lemma confirmation_failed_prompt:
  "u_select U = None \<Longrightarrow> confirmation False U sel = (False, map Some sel, [AskSelect])"
  by (simp add: confirmation_def survey_AskOne_def)

lemma confirmation_No:
  "u_select U = Some ''No'' \<Longrightarrow> confirmation False U sel = (False, map Some sel, [AskSelect])"
  by (simp add: confirmation_def survey_AskOne_def)

lemma confirmation_Pick_nothing:
  assumes "u_select U = Some ''Pick''" "\<And>arrSel. u_multi U arrSel = Some []"
  shows "confirmation False U sel = (False, [], [AskSelect, AskMultiSelect (map Name sel)])"
proof -
  obtain mapSel arrSel where p: "pickOptions sel Map.empty [] = (mapSel, arrSel)"
    by (cases "pickOptions sel Map.empty []")
  with snd_pickOptions [of sel Map.empty "[]"] have "arrSel = map Name sel"
    by simp
  with p assms show ?thesis
    by (simp add: confirmation_def survey_AskOne_def)
qed

text \<open>
  C10. \<^verbatim>\<open>ans\<close> starts as \<^verbatim>\<open>"No"\<close> and the error of the prompt is dropped. So in a run
  without the yes flag whose \<^verbatim>\<open>Select\<close> prompt fails, nothing is removed and the world
  is unchanged; if the prompt was shown, the run prints \<^verbatim>\<open>Aborted\<close> last and returns nil
  (exit code 0). A run that reaches a selection, not a dry run, does show the prompt.
\<close>

theorem failed_prompt_aborts:
  assumes "\<not> f_yes ctx" and "u_select U = None" and "Action E args0 ctx U w = (r, evs, w')"
  shows "w' = w \<and> removals evs = [] \<and>
         (AskSelect \<in> set evs \<longrightarrow>
            r = RetNil \<and> exitCode r = 0 \<and> last evs = Println ''Aborted'') \<and>
         (\<forall>sel. selectMatches E args0 ctx w = Inr sel \<and> \<not> f_dry_run ctx \<longrightarrow>
            r = RetNil \<and> evs = printResult E sel @ [AskSelect, Println ''Aborted''])"
proof (cases "selectMatches E args0 ctx w")
  case (Inl a)
  obtain r0 evs0 where a: "a = (r0, evs0)" by (cases a)
  with Inl assms(3) have "r = r0" "evs = evs0" "w' = w"
    by (simp_all add: Action_def)
  with selectMatches_Inl [of E args0 ctx w r0 evs0] Inl a show ?thesis
    by simp
next
  case (Inr sel)
  show ?thesis
  proof (cases "f_dry_run ctx")
    case True
    with Inr assms(3) have "r = RetNil" "evs = printResult E sel" "w' = w"
      by (simp_all add: Action_def Let_def)
    with Inr True printResult_events [of E sel] show ?thesis
      by simp
  next
    case False
    with Inr assms have "r = RetNil"
      "evs = printResult E sel @ [AskSelect, Println ''Aborted'']" "w' = w"
      by (simp_all add: Action_def Let_def confirmation_failed_prompt)
    with Inr False printResult_events [of E sel] show ?thesis
      by simp
  qed
qed

text \<open>
  C7. In the interactive flow (neither the yes flag nor the dry-run flag), a user who
  answers \<^verbatim>\<open>Pick\<close> and then checks nothing gets what a user who answers \<^verbatim>\<open>No\<close> gets:
  the same value returned, the same world, the same output apart from the prompts,
  and no call of \<^verbatim>\<open>os.Remove\<close>. When a selection is reached, both runs return nil
  after printing \<^verbatim>\<open>Aborted\<close>.
\<close>

theorem pick_nothing_same_as_no:
  assumes "\<not> f_yes ctx" and "\<not> f_dry_run ctx"
    and "u_select Uno = Some ''No''"
    and "u_select Upick = Some ''Pick''" and "\<And>arrSel. u_multi Upick arrSel = Some []"
  shows "\<exists>r evsNo evsPick.
           Action E args0 ctx Uno w = (r, evsNo, w) \<and>
           Action E args0 ctx Upick w = (r, evsPick, w) \<and>
           filter (\<lambda>e. \<not> isPrompt e) evsPick = filter (\<lambda>e. \<not> isPrompt e) evsNo \<and>
           removals evsNo = [] \<and> removals evsPick = [] \<and>
           (\<forall>sel. selectMatches E args0 ctx w = Inr sel \<longrightarrow>
              r = RetNil \<and>
              evsNo = printResult E sel @ [AskSelect, Println ''Aborted''] \<and>
              evsPick = printResult E sel
                          @ [AskSelect, AskMultiSelect (map Name sel), Println ''Aborted''])"
proof (cases "selectMatches E args0 ctx w")
  case (Inl a)
  obtain r0 evs0 where a: "a = (r0, evs0)" by (cases a)
  with Inl have "Action E args0 ctx Uno w = (r0, evs0, w)"
    "Action E args0 ctx Upick w = (r0, evs0, w)"
    by (simp_all add: Action_def)
  with selectMatches_Inl [of E args0 ctx w r0 evs0] Inl a show ?thesis
    by simp
next
  case (Inr sel)
  with assms have no: "Action E args0 ctx Uno w
      = (RetNil, printResult E sel @ [AskSelect, Println ''Aborted''], w)"
    by (simp add: Action_def Let_def confirmation_No)
  from Inr assms(1,2) confirmation_Pick_nothing [OF assms(4,5), of sel]
  have pick: "Action E args0 ctx Upick w
      = (RetNil, printResult E sel
                   @ [AskSelect, AskMultiSelect (map Name sel), Println ''Aborted''], w)"
    by (simp add: Action_def Let_def)
  have "filter (\<lambda>e. \<not> isPrompt e)
          (printResult E sel @ [AskSelect, AskMultiSelect (map Name sel), Println ''Aborted''])
        = filter (\<lambda>e. \<not> isPrompt e) (printResult E sel @ [AskSelect, Println ''Aborted''])"
    by (simp add: isPrompt_def)
  with no pick Inr printResult_events [of E sel] show ?thesis
    by simp
qed


lemma sample_select_all:
  assumes "f_pattern ctx = ''log''" "f_path ctx = ''d''" "f_number ctx = 0"
  shows "selectMatches sampleEnv ''./delete-old-files'' ctx sampleWorld
           = Inr [fileA, fileB, fileC]"
  using assms by (simp add: sample_selectMatches countSelect_def)

theorem dry_run_never_deletes_witness:
  "Action sampleEnv ''./delete-old-files'' (sampleFlags\<lparr>f_dry_run := True\<rparr>) sampleUser
     sampleWorld
     = (RetNil, printResult sampleEnv [fileA, fileB, fileC], sampleWorld)"
proof -
  let ?ctx = "sampleFlags\<lparr>f_dry_run := True\<rparr>"
  obtain r evs w' where
    a: "Action sampleEnv ''./delete-old-files'' ?ctx sampleUser sampleWorld = (r, evs, w')"
    by (cases "Action sampleEnv ''./delete-old-files'' ?ctx sampleUser sampleWorld")
  have d: "f_dry_run ?ctx" by simp
  have s: "selectMatches sampleEnv ''./delete-old-files'' ?ctx sampleWorld
             = Inr [fileA, fileB, fileC]"
    by (rule sample_select_all) (simp_all add: sampleFlags_def)
  from dry_run_never_deletes [OF d a] s
  have "w' = sampleWorld" "r = RetNil" "evs = printResult sampleEnv [fileA, fileB, fileC]"
    by simp_all
  with a show ?thesis by simp
qed

theorem failed_prompt_aborts_witness:
  "Action sampleEnv ''./delete-old-files'' sampleFlags
     \<lparr>u_select = None, u_multi = (\<lambda>arrSel. None)\<rparr> sampleWorld
     = (RetNil, printResult sampleEnv [fileA, fileB, fileC] @ [AskSelect, Println ''Aborted''],
        sampleWorld)"
proof -
  let ?U = "\<lparr>u_select = None, u_multi = (\<lambda>arrSel. None)\<rparr>"
  obtain r evs w' where
    a: "Action sampleEnv ''./delete-old-files'' sampleFlags ?U sampleWorld = (r, evs, w')"
    by (cases "Action sampleEnv ''./delete-old-files'' sampleFlags ?U sampleWorld")
  have y: "\<not> f_yes sampleFlags" and d: "\<not> f_dry_run sampleFlags"
    by (simp_all add: sampleFlags_def)
  have u: "u_select ?U = None" by simp
  have s: "selectMatches sampleEnv ''./delete-old-files'' sampleFlags sampleWorld
             = Inr [fileA, fileB, fileC]"
    by (rule sample_select_all) (simp_all add: sampleFlags_def)
  from failed_prompt_aborts [OF y u a] s d
  have "w' = sampleWorld" "r = RetNil"
    "evs = printResult sampleEnv [fileA, fileB, fileC] @ [AskSelect, Println ''Aborted'']"
    by simp_all
  with a show ?thesis by simp
qed

theorem pick_nothing_same_as_no_witness:
  "Action sampleEnv ''./delete-old-files'' sampleFlags
     \<lparr>u_select = Some ''No'', u_multi = (\<lambda>arrSel. None)\<rparr> sampleWorld
     = (RetNil, printResult sampleEnv [fileA, fileB, fileC] @ [AskSelect, Println ''Aborted''],
        sampleWorld) \<and>
   Action sampleEnv ''./delete-old-files'' sampleFlags
     \<lparr>u_select = Some ''Pick'', u_multi = (\<lambda>arrSel. Some [])\<rparr> sampleWorld
     = (RetNil,
        printResult sampleEnv [fileA, fileB, fileC]
          @ [AskSelect, AskMultiSelect [''a.log'', ''b.log'', ''catalog.txt''],
             Println ''Aborted''],
        sampleWorld)"
proof -
  let ?no = "\<lparr>u_select = Some ''No'', u_multi = (\<lambda>arrSel. None)\<rparr>"
  let ?pick = "\<lparr>u_select = Some ''Pick'', u_multi = (\<lambda>arrSel. Some [])\<rparr>"
  have y: "\<not> f_yes sampleFlags" and d: "\<not> f_dry_run sampleFlags"
    by (simp_all add: sampleFlags_def)
  have n: "u_select ?no = Some ''No''" and p: "u_select ?pick = Some ''Pick''"
    and m: "\<And>arrSel. u_multi ?pick arrSel = Some []"
    by simp_all
  have s: "selectMatches sampleEnv ''./delete-old-files'' sampleFlags sampleWorld
             = Inr [fileA, fileB, fileC]"
    by (rule sample_select_all) (simp_all add: sampleFlags_def)
  have names: "map Name [fileA, fileB, fileC] = [''a.log'', ''b.log'', ''catalog.txt'']"
    by (simp add: fileA_def fileB_def fileC_def)
  from pick_nothing_same_as_no
         [OF y d n p m, of sampleEnv "''./delete-old-files''" sampleWorld] s
  obtain r evsNo evsPick where
    "Action sampleEnv ''./delete-old-files'' sampleFlags ?no sampleWorld = (r, evsNo, sampleWorld)"
    "Action sampleEnv ''./delete-old-files'' sampleFlags ?pick sampleWorld
       = (r, evsPick, sampleWorld)"
    "r = RetNil"
    "evsNo = printResult sampleEnv [fileA, fileB, fileC] @ [AskSelect, Println ''Aborted'']"
    "evsPick = printResult sampleEnv [fileA, fileB, fileC]
                 @ [AskSelect, AskMultiSelect (map Name [fileA, fileB, fileC]),
                    Println ''Aborted'']"
    by auto
  then show ?thesis
    unfolding names by simp
qed

subsection \<open>Confirmed runs\<close>

text \<open>
  A confirmed run is the presentation, the prompts and then the Deleter on the files
  confirmed; the yes flag and the answer \<^verbatim>\<open>Yes\<close> confirm the whole selection.
\<close>

lemma Action_confirmed:
  assumes "selectMatches E args0 ctx w = Inr sel" and "\<not> f_dry_run ctx"
    and "confirmation (f_yes ctx) U sel = (True, arrMatch, asked)"
    and "deleter E (f_path ctx) arrMatch w = (r, evs, w')"
  shows "Action E args0 ctx U w = (r, printResult E sel @ asked @ evs, w')"
  using assms by (simp add: Action_def Let_def)

lemma confirmation_yes_flag: "confirmation True U sel = (True, map Some sel, [])"
  by (simp add: confirmation_def)

lemma confirmation_Yes:
  "u_select U = Some ''Yes'' \<Longrightarrow> confirmation False U sel = (True, map Some sel, [AskSelect])"
  by (simp add: confirmation_def survey_AskOne_def)

lemma fst_pickOptions:
  "fst (pickOptions arrMatch mapSel arrSel)
     = mapSel ++ map_of (rev (map (\<lambda>fi. (Name fi, fi)) arrMatch))"
proof (induction arrMatch arbitrary: mapSel arrSel)
  case Nil
  then show ?case by simp
next
  case (Cons fi arrMatch)
  have "fst (pickOptions (fi # arrMatch) mapSel arrSel)
          = fst (pickOptions arrMatch (mapSel(Name fi \<mapsto> fi)) (arrSel @ [Name fi]))"
    by simp
  also have "\<dots> = mapSel(Name fi \<mapsto> fi) ++ map_of (rev (map (\<lambda>fi. (Name fi, fi)) arrMatch))"
    by (rule Cons.IH)
  also have "\<dots> = mapSel ++ map_of (rev (map (\<lambda>fi. (Name fi, fi)) (fi # arrMatch)))"
    by (rule ext) (simp add: map_add_def split: option.splits)
  finally show ?case .
qed

lemma pickOptions_map:
  assumes "fst (pickOptions arrMatch Map.empty arrSel) k = Some fi"
  shows "fi \<in> set arrMatch \<and> Name fi = k"
proof -
  from assms have "map_of (rev (map (\<lambda>fi. (Name fi, fi)) arrMatch)) k = Some fi"
    by (simp add: fst_pickOptions)
  then have "(k, fi) \<in> set (rev (map (\<lambda>fi. (Name fi, fi)) arrMatch))"
    by (rule map_of_SomeD)
  then show ?thesis by auto
qed

lemma pickOptions_dom:
  assumes "k \<in> Name ` set arrMatch"
  shows "fst (pickOptions arrMatch Map.empty arrSel) k \<noteq> None"
proof -
  from assms have "k \<in> fst ` set (rev (map (\<lambda>fi. (Name fi, fi)) arrMatch))"
    by (auto simp: image_iff)
  then have "map_of (rev (map (\<lambda>fi. (Name fi, fi)) arrMatch)) k \<noteq> None"
    by (simp only: map_of_eq_None_iff not_not)
  then show ?thesis by (simp add: fst_pickOptions)
qed

lemma pickMatch_eq: "pickMatch mapSel arrAns arrMatch = arrMatch @ map mapSel arrAns"
  by (induction arrAns arbitrary: arrMatch) auto

text \<open>
  Names checked among the options shown stand for files of the selection: the files
  to delete after \<^verbatim>\<open>Pick\<close> are files presented before, with the names checked.
\<close>

lemma pickMatch_files:
  assumes "set arrAns \<subseteq> Name ` set sel"
  shows "\<exists>fis. pickMatch (fst (pickOptions sel Map.empty [])) arrAns [] = map Some fis \<and>
           set fis \<subseteq> set sel \<and> map Name fis = arrAns"
  using assms
proof (induction arrAns)
  case Nil
  then show ?case by (simp add: pickMatch_eq)
next
  case (Cons a arrAns)
  then obtain fis where f: "map (fst (pickOptions sel Map.empty [])) arrAns = map Some fis"
    "set fis \<subseteq> set sel" "map Name fis = arrAns"
    by (auto simp: pickMatch_eq)
  from Cons.prems have "a \<in> Name ` set sel" by simp
  then obtain fi where fi: "fst (pickOptions sel Map.empty []) a = Some fi"
    using pickOptions_dom [of a sel "[]"] by auto
  with pickOptions_map [of sel "[]" a fi] have "fi \<in> set sel" "Name fi = a"
    by simp_all
  with f fi show ?case
    by (intro exI [of _ "fi # fis"]) (simp add: pickMatch_eq)
qed

end
